theory Spec2Isabelle
  imports Main "HOL-Library.Word"
begin

chapter \<open>The model: data and operations, from the sources\<close>

section \<open>Cooperative single-queue scheduler (simple_execution_context)\<close>

text \<open>
  Both variants of \<open>simple_execution_context\<close> keep an intrusive singly linked list:
  every pending node (a \<open>task_base\<close> in one file, an \<open>awaiter\<close> in the other) has a
  \<open>next\<close> pointer, and the context has a \<open>head\<close> pointer. Nodes are identified by
  their address; the \<open>next\<close> fields of all nodes form a store from addresses to
  pointers, where \<open>None\<close> is \<open>nullptr\<close>. The field \<open>resumed\<close> is not in the source:
  it records the order in which \<open>execute()\<close> was called on the nodes.
\<close>

type_synonym addr = nat

record simple_execution_context =
  head :: "addr option"
  next_of :: "addr \<Rightarrow> addr option"
  resumed :: "addr list"


text \<open>\<open>void enqueue(task_base *t) noexcept { t->next = std::exchange(head, t); }\<close>\<close>

definition enqueue :: "addr \<Rightarrow> simple_execution_context \<Rightarrow> simple_execution_context" where
  "enqueue t c = c\<lparr>next_of := (next_of c)(t := head c), head := Some t\<rparr>"





section \<open>Asynchronous line counter (count_lines)\<close>


datatype io_error = Io_error string









section \<open>Exceptions\<close>

text \<open>
  An \<open>std::exception_ptr\<close> refers to a thrown object. Three kinds of object occur:
  whatever a user callable throws (identified here by a message); the
  \<open>callback_invocation_error\<close> of the executor library, a \<open>runtime_error\<close> (with the
  message of \<open>invocation_error_\<close>) that is also a \<open>nested_exception\<close>, whose
  \<open>nested_ptr()\<close> is the exception being handled when it was constructed, or null; and
  the \<open>std::future_error\<close> with the code \<open>broken_promise\<close>, which the standard library
  stores in the shared state of a \<open>std::promise\<close> destroyed before it was given a result.
\<close>

datatype exception =
  User_exception string
| Callback_invocation_error string "exception option"
| Broken_promise


text \<open>What a call returns to its caller: a value, or an exception thrown.\<close>

datatype 'a outcome = Returns 'a | Throws exception


section \<open>Sender/receiver core and the retry algorithm\<close>

text \<open>
  The program is single threaded and every operation completes inside \<open>start\<close>, so a
  call is a function on the state of the process. The state holds what the program
  can observe or mutate: the lines written by \<open>puts\<close>, whether \<open>std::terminate\<close> was
  called, and the field \<open>s_\<close> of the retry operation state, the inner sender, which
  \<open>connect\<close> mutates in place (here \<open>retry_s\<close>; Isabelle does not take field names that
  end in an underscore).
\<close>

record 's process =
  stdout :: "string list"
  terminated :: bool
  retry_s :: 's

definition puts :: "string \<Rightarrow> 's process \<Rightarrow> 's process" where
  "puts str w = w\<lparr>stdout := stdout w @ [str]\<rparr>"

definition terminate :: "'s process \<Rightarrow> 's process" where
  "terminate w = w\<lparr>terminated := True\<rparr>"

text \<open>
  What \<open>set_error\<close> is given in this program: the \<open>int\<close> 42 of \<open>fail_3\<close>, or an
  \<open>exception_ptr\<close>.
\<close>

datatype error = Error_int "32 word" | Error_exception exception

text \<open>
  A receiver is an object with the three members \<open>set_value\<close>, \<open>set_error\<close> and
  \<open>set_done\<close>. \<open>set_value\<close> may throw: it returns the exception thrown, if any, with
  the state. \<open>set_error\<close> and \<open>set_done\<close> are \<open>noexcept\<close>. The result \<open>None\<close> of a
  call is a call that does not return: the retry receiver's \<open>set_error\<close> restarts
  the operation, without any bound on the number of restarts.
\<close>

record ('v, 's) receiver =
  set_value :: "'v \<Rightarrow> 's process \<Rightarrow> (exception option \<times> 's process) option"
  set_error :: "error \<Rightarrow> 's process \<Rightarrow> 's process option"
  set_done :: "'s process \<Rightarrow> 's process option"

text \<open>
  The inner sender of \<open>retry\<close> is any sender \<open>S\<close> that can be connected as an lvalue.
  Of it the algorithm uses \<open>connect(s_, r)\<close>, here \<open>conn r s\<close>, which returns the
  operation state or the exception thrown, with the sender as the call left it, and
  \<open>start\<close> of the operation state, here \<open>strt\<close>.

  \<open>_op::_retry()\<close>:
  \<^verbatim>\<open>
    void _retry() noexcept try {
        o_.emplace(_connect()); // potentially throwing
        ::start(std::move(*o_));
    } catch(...) {
        ::set_error((R&&) r_, std::current_exception());
    }
  \<close>
  where \<open>_connect()\<close> connects \<open>s_\<close> to \<open>_retry_receiver{this}\<close>, whose members are
  \<^verbatim>\<open>
    void set_value(As&&... as) && { ::set_value(std::move(o_->r_), (As&&) as...); }
    void set_error(auto&&) && noexcept { o_->_retry(); }
    void set_done() && noexcept { ::set_done(std::move(o_->r_)); }
  \<close>
  The two call each other without bound, so \<open>_retry\<close> takes fuel: the number of
  calls of \<open>_retry\<close> that may still be made. Out of fuel, the result is \<open>None\<close>.
\<close>

fun op_retry ::
  "nat \<Rightarrow> (('v, 's) receiver \<Rightarrow> 's \<Rightarrow> (exception + 'o) \<times> 's) \<Rightarrow> ('o \<Rightarrow> 's process \<Rightarrow> 's process option)
     \<Rightarrow> ('v, 's) receiver \<Rightarrow> 's process \<Rightarrow> 's process option" where
  "op_retry 0 conn strt r w = None"
| "op_retry (Suc n) conn strt r w =
     (case conn \<lparr>set_value = set_value r,
                 set_error = (\<lambda>_. op_retry n conn strt r),
                 set_done = set_done r\<rparr> (retry_s w) of
        (Inl e, s') \<Rightarrow> set_error r (Error_exception e) (w\<lparr>retry_s := s'\<rparr>)
      | (Inr o', s') \<Rightarrow> strt o' (w\<lparr>retry_s := s'\<rparr>))"

text \<open>\<open>_retry_receiver{this}\<close>, for the operation state with outer receiver \<open>r\<close>.\<close>

definition retry_receiver ::
  "nat \<Rightarrow> (('v, 's) receiver \<Rightarrow> 's \<Rightarrow> (exception + 'o) \<times> 's) \<Rightarrow> ('o \<Rightarrow> 's process \<Rightarrow> 's process option)
     \<Rightarrow> ('v, 's) receiver \<Rightarrow> ('v, 's) receiver" where
  "retry_receiver n conn strt r =
     \<lparr>set_value = set_value r,
      set_error = (\<lambda>_. op_retry n conn strt r),
      set_done = set_done r\<rparr>"

text \<open>\<open>_retry_sender\<close> holds the inner sender; \<open>retry(s)\<close> builds it.\<close>

record 's retry_sender =
  sender_s :: 's

definition retry :: "'s \<Rightarrow> 's retry_sender" where
  "retry s = \<lparr>sender_s = s\<rparr>"

text \<open>
  The operation state \<open>_retry_sender::_op\<close>: the outer receiver \<open>r_\<close> and the optional
  inner operation state \<open>o_\<close> (its third field \<open>s_\<close> is \<open>retry_s\<close> of the process).
\<close>

record ('v, 's, 'o) retry_op =
  retry_r :: "('v, 's) receiver"
  retry_o :: "'o option"

text \<open>
  \<open>_retry_sender::connect\<close> builds \<open>_op{s_, r}\<close>, whose constructor moves the sender
  into the operation state and connects it for the first time. This first \<open>connect\<close>
  is outside any \<open>try\<close>: an exception leaves \<open>connect\<close>.
\<close>

definition retry_connect ::
  "nat \<Rightarrow> (('v, 's) receiver \<Rightarrow> 's \<Rightarrow> (exception + 'o) \<times> 's) \<Rightarrow> ('o \<Rightarrow> 's process \<Rightarrow> 's process option)
     \<Rightarrow> 's retry_sender \<Rightarrow> ('v, 's) receiver \<Rightarrow> 's process
     \<Rightarrow> (exception + ('v, 's, 'o) retry_op) \<times> 's process" where
  "retry_connect n conn strt rs r w =
     (case conn (retry_receiver n conn strt r) (sender_s rs) of
        (Inl e, s') \<Rightarrow> (Inl e, w)
      | (Inr o', s') \<Rightarrow> (Inr \<lparr>retry_r = r, retry_o = Some o'\<rparr>, w\<lparr>retry_s := s'\<rparr>))"

text \<open>
  \<open>void start() && noexcept { ::start(std::move(*o_)); }\<close>. The constructor has
  engaged \<open>o_\<close>; dereferencing an empty optional would be undefined.
\<close>

definition retry_start ::
  "('o \<Rightarrow> 's process \<Rightarrow> 's process option) \<Rightarrow> ('v, 's, 'o) retry_op \<Rightarrow> 's process \<Rightarrow> 's process option" where
  "retry_start strt op w = (case retry_o op of None \<Rightarrow> None | Some o' \<Rightarrow> strt o' w)"

text \<open>The receiver \<open>sink\<close>: \<open>set_value\<close> does nothing, the other two terminate.\<close>

definition sink :: "('v, 's) receiver" where
  "sink = \<lparr>set_value = (\<lambda>_ w. Some (None, w)),
           set_error = (\<lambda>_ w. Some (terminate w)),
           set_done = (\<lambda>w. Some (terminate w))\<rparr>"

text \<open>
  The test sender \<open>fail_3\<close> has the counter \<open>int count_ = 0\<close>, a 32-bit integer read
  as signed. Its operation state holds the count it was built with and the receiver.
\<close>

record fail_3 =
  count :: "32 word"

record 's fail_3_op =
  op_count :: "32 word"
  op_r :: "(32 word, 's) receiver"

text \<open>
  \<^verbatim>\<open>
    void start() && noexcept try {
        if(count_ > 3) { ::puts("success"); ::set_value((R&&) r_, count_); }
        else { ::puts("error"); ::set_error((R&&) r_, 42); }
    } catch(...) {
        ::set_error((R&&) r_, std::current_exception());
    }
  \<close>
  Only \<open>set_value\<close> can throw inside the \<open>try\<close> block.
\<close>

definition fail_3_start :: "'s fail_3_op \<Rightarrow> 's process \<Rightarrow> 's process option" where
  "fail_3_start op w =
     (if 3 <s op_count op then
        (case set_value (op_r op) (op_count op) (puts ''success'' w) of
           None \<Rightarrow> None
         | Some (None, w') \<Rightarrow> Some w'
         | Some (Some e, w') \<Rightarrow> set_error (op_r op) (Error_exception e) w')
      else set_error (op_r op) (Error_int 42) (puts ''error'' w))"

text \<open>
  \<open>auto connect(R r) & -> _op<R> { return _op<R>{++count_, (R&&) r}; }\<close>. It never
  throws. The increment wraps around at \<open>2^31\<close>, where the C++ increment is undefined;
  the properties below are about counts under that bound.
\<close>

definition fail_3_connect :: "(32 word, 's) receiver \<Rightarrow> fail_3 \<Rightarrow> (exception + 's fail_3_op) \<times> fail_3" where
  "fail_3_connect r f =
     (let f' = f\<lparr>count := count f + 1\<rparr>
      in (Inr \<lparr>op_count = count f', op_r = r\<rparr>, f'))"

text \<open>
  \<open>int main() { fail_3 s; ::start(::connect(retry(s), sink)); }\<close>, with the fuel for
  \<open>_retry\<close>. An exception that leaves \<open>main\<close> would terminate the process.
\<close>

definition main :: "nat \<Rightarrow> fail_3 process option" where
  "main n =
     (let s = \<lparr>count = 0\<rparr>;
          w = \<lparr>stdout = [], terminated = False, retry_s = s\<rparr>
      in case retry_connect n fail_3_connect fail_3_start (retry s) sink w of
           (Inl e, w') \<Rightarrow> Some (terminate w')
         | (Inr op, w') \<Rightarrow> retry_start fail_3_start op w')"

text \<open>
  \<open>k\<close> calls of \<open>connect\<close> on a \<open>fail_3\<close>, whose operation states are dropped without
  being started.
\<close>

primrec connect_times :: "nat \<Rightarrow> (32 word, 's) receiver \<Rightarrow> fail_3 \<Rightarrow> fail_3" where
  "connect_times 0 r f = f"
| "connect_times (Suc k) r f = connect_times k r (snd (fail_3_connect r f))"

text \<open>A sender whose \<open>connect\<close> always throws (a test double).\<close>

definition throwing_connect :: "(32 word, fail_3) receiver \<Rightarrow> fail_3 \<Rightarrow> (exception + fail_3 fail_3_op) \<times> fail_3" where
  "throwing_connect r f = (Inl (User_exception ''connect''), f)"


section \<open>Executor library: invoke_callback\<close>

text \<open>
  \<open>extern runtime_error const invocation_error_; // = "invocation error";\<close> The
  constant is only declared in the sources; its message is the one the comment gives.
\<close>

definition invocation_error :: string where
  "invocation_error = ''invocation error''"

text \<open>
  The constructor of \<open>callback_invocation_error\<close> copies \<open>invocation_error_\<close> into its
  \<open>runtime_error\<close> base and default-constructs its \<open>nested_exception\<close> base, which
  captures \<open>std::current_exception()\<close> at that moment.
\<close>

definition callback_invocation_error :: "exception option \<Rightarrow> exception" where
  "callback_invocation_error current_exception =
     Callback_invocation_error invocation_error current_exception"

text \<open>
  A \<open>CallbackSignal\<close> has the \<open>noexcept\<close> members \<open>done()\<close> and \<open>error(E)\<close>. A callable
  is invoked with arguments and returns or throws; whether its type also models
  \<open>CallbackSignal\<close> is known statically (\<open>signals\<close> is \<open>None\<close> for a plain invocable).
  The state \<open>'w\<close> is whatever the callable and its signals act on.
\<close>

record 'w callback_signal =
  signal_done :: "'w \<Rightarrow> 'w"
  signal_error :: "exception \<Rightarrow> 'w \<Rightarrow> 'w"

record ('a, 'w) callable =
  invoke :: "'a \<Rightarrow> 'w \<Rightarrow> exception option \<times> 'w"
  signals :: "'w callback_signal option"

text \<open>
  \<^verbatim>\<open>
    constexpr void try_invoke_callback(F&& f, C&& c, Args&&... args) noexcept
    try {
      invoke((C&&) c, (Args&&) args...);
    } catch (...) {
      ((F&&) f).error(make_exception_ptr(callback_invocation_error{}));
    }
  \<close>
\<close>

definition try_invoke_callback ::
  "'w callback_signal \<Rightarrow> ('a, 'w) callable \<Rightarrow> 'a \<Rightarrow> 'w \<Rightarrow> 'w" where
  "try_invoke_callback f c args w =
     (case invoke c args w of
        (None, w') \<Rightarrow> w'
      | (Some e, w') \<Rightarrow> signal_error f (callback_invocation_error (Some e)) w')"

text \<open>
  \<^verbatim>\<open>
    if constexpr (CallbackSignal<C>)
      try_invoke_callback((C&&) c, (C&&) c, (Args&&) args...);
    else
      invoke((C&&) c, (Args&&) args...);
  \<close>
  The result is the exception that leaves \<open>invoke_callback\<close>, if any, and the state.
\<close>

definition invoke_callback :: "('a, 'w) callable \<Rightarrow> 'a \<Rightarrow> 'w \<Rightarrow> exception option \<times> 'w" where
  "invoke_callback c args w =
     (case signals c of
        Some f \<Rightarrow> (None, try_invoke_callback f c args w)
      | None \<Rightarrow> invoke c args w)"

text \<open>
  Test doubles: a callback and a plain invocable that record, in a list, that they
  were invoked and which signals they got, and throw the exception given, if any.
\<close>

datatype observed = Invoked | Done_signal | Error_signal exception

definition recording_callback :: "exception option \<Rightarrow> (unit, observed list) callable" where
  "recording_callback thrown =
     \<lparr>invoke = (\<lambda>_ w. (thrown, w @ [Invoked])),
      signals = Some \<lparr>signal_done = (\<lambda>w. w @ [Done_signal]),
                      signal_error = (\<lambda>e w. w @ [Error_signal e])\<rparr>\<rparr>"

definition plain_invocable :: "exception option \<Rightarrow> (unit, observed list) callable" where
  "plain_invocable thrown = \<lparr>invoke = (\<lambda>_ w. (thrown, w @ [Invoked])), signals = None\<rparr>"


section \<open>Promise/continuation pipeline\<close>

text \<open>
  \<open>_state<T>::data\<close> is a \<open>std::variant<std::monostate, std::exception_ptr, T>\<close>;
  \<open>index()\<close> is the position of the alternative it holds.
\<close>

datatype 'a variant = Monostate | Exception_ptr exception | Value 'a



text \<open>
  What a caller can hand to a \<open>set_exception\<close>: an \<open>std::exception_ptr\<close>, or an exception
  object, of the class \<open>std::exception\<close> itself or of a class derived from it (here
  \<open>std::runtime_error\<close>, with its message).
\<close>

datatype exception_object = Std_exception | Runtime_error string

datatype exception_arg = Ptr_arg exception | Object_arg exception_object

text \<open>
  Copy-initialising a parameter of type \<open>std::exception\<close> from an exception object
  copies the \<open>std::exception\<close> base of the object and nothing else (slicing).
\<close>

definition slice_exception :: "exception_object \<Rightarrow> exception_object" where
  "slice_exception ob = Std_exception"

text \<open>
  A promise is an object with the members \<open>set_value\<close> and \<open>set_exception\<close> (here
  \<open>p_set_value\<close> and \<open>p_set_exception\<close>, since the receivers above have a
  \<open>set_value\<close> too); \<open>'s\<close> is the state its calls act on. A \<open>set_exception\<close> does not
  take every argument: where the call with an argument is ill-formed (there is no
  such call in a program that compiles), the result is \<open>None\<close>. The functions given to
  \<open>then\<close> are taken to return: an exception thrown by one of them is outside this model.
\<close>

record ('v, 's) promise =
  p_set_value :: "'v \<Rightarrow> 's \<Rightarrow> 's"
  p_set_exception :: "exception_arg \<Rightarrow> 's \<Rightarrow> 's option"

text \<open>
  \<open>_promise<T>{&state}\<close>: \<open>set_value\<close> is \<open>_set<2>\<close> and \<open>set_exception\<close> is \<open>_set<1>\<close>, where
  \<open>_set<I>\<close> locks, emplaces alternative \<open>I\<close> of \<open>data\<close> and notifies.
  \<open>set_exception(auto e)\<close> takes any argument, but \<open>data.emplace<1>(e)\<close> constructs an
  \<open>std::exception_ptr\<close> from it, which is well-formed for an \<open>std::exception_ptr\<close> only.
\<close>

definition state_promise :: "('a, 'a variant) promise" where
  "state_promise =
     \<lparr>p_set_value = (\<lambda>v d. Value v),
      p_set_exception = (\<lambda>a d. case a of
                                  Ptr_arg e \<Rightarrow> Some (Exception_ptr e)
                                | Object_arg ob \<Rightarrow> None)\<rparr>"

text \<open>
  The local \<open>struct _promise\<close> of \<open>then\<close>:
  \<^verbatim>\<open>
    void set_value(auto... vs) { p_.set_value(fun_(vs...)); }
    void set_exception(exception _e) { p_.set_exception(_e); }
  \<close>
  The parameter \<open>_e\<close> is an \<open>std::exception\<close> (the file is \<open>using namespace std\<close>), taken
  by value: an exception object arrives sliced, and an \<open>std::exception_ptr\<close> does not
  convert to it. What goes downstream is the object \<open>_e\<close>.
\<close>

definition then_promise :: "('b, 's) promise \<Rightarrow> ('a \<Rightarrow> 'b) \<Rightarrow> ('a, 's) promise" where
  "then_promise p fun =
     \<lparr>p_set_value = (\<lambda>vs. p_set_value p (fun vs)),
      p_set_exception = (\<lambda>a. case a of
                                Ptr_arg e \<Rightarrow> (\<lambda>_. None)
                              | Object_arg ob \<Rightarrow> p_set_exception p (Object_arg (slice_exception ob)))\<rparr>"










section \<open>Thread pool\<close>

text \<open>
  The shared state behind a \<open>std::promise\<close> and its \<open>std::future\<close>: not ready, or
  ready with a value or with an exception.
\<close>

datatype 'a shared_state = Not_ready | Ready "'a outcome"

text \<open>
  The queue and the flag are only touched under \<open>m_mu\<close>, so the threads of the pool
  are modelled by interleaving their atomic steps. A worker thread is at one of these
  points of the loop in \<open>run()\<close>: waiting at the top of the loop (in \<open>m_cv.wait\<close>); holding
  the task it has popped, with the lock released, about to call it; or out of the
  loop. A task is a nullary callable, which returns a value or throws. Every task of
  a pool has the result type \<open>'a\<close> here.
\<close>

datatype 'a worker = Waiting | Running nat "unit \<Rightarrow> 'a outcome" | Exited

text \<open>
  The members \<open>m_enabled\<close>, \<open>m_pool\<close> and \<open>m_tasks\<close>. An element of the queue is the
  closure \<open>[p, t] { execute(*p, t); }\<close>, given by its promise and its task. Promises
  are allocated by \<open>enqueue\<close> and identified by a number; \<open>shared\<close> maps each to its
  shared state and \<open>next_promise\<close> is the next one to allocate. \<open>uncaught\<close> is the
  exception that has left a thread function, if any: then \<open>std::terminate\<close> has ended
  the process.
\<close>

record 'a thread_pool =
  m_enabled :: bool
  m_pool :: "'a worker list"
  m_tasks :: "(nat \<times> (unit \<Rightarrow> 'a outcome)) list"
  shared :: "nat \<Rightarrow> 'a shared_state"
  next_promise :: nat
  uncaught :: "exception option"

text \<open>The constructor: enabled, \<open>nthreads\<close> workers started, no task.\<close>

definition ThreadPool :: "nat \<Rightarrow> 'a thread_pool" where
  "ThreadPool nthreads =
     \<lparr>m_enabled = True, m_pool = replicate nthreads Waiting, m_tasks = [],
      shared = (\<lambda>_. Not_ready), next_promise = 0, uncaught = None\<rparr>"

text \<open>
  \<open>enqueue(task)\<close>: a new promise, its future as the result, and the closure pushed
  at the back of the queue.
\<close>

definition ThreadPool_enqueue :: "(unit \<Rightarrow> 'a outcome) \<Rightarrow> 'a thread_pool \<Rightarrow> nat \<times> 'a thread_pool" where
  "ThreadPool_enqueue task s =
     (let promise = next_promise s
      in (promise, s\<lparr>m_tasks := m_tasks s @ [(promise, task)], next_promise := Suc promise\<rparr>))"

text \<open>
  \<open>static void execute(std::promise<ResultT>& p, TaskT& task) { p.set_value(task()); }\<close>
  (and, for \<open>void\<close>, \<open>task(); p.set_value();\<close>). There is no handler: an exception
  thrown by \<open>task()\<close> leaves \<open>execute\<close>, and \<open>set_value\<close> is not reached.
\<close>

definition ThreadPool_execute ::
  "nat \<Rightarrow> (unit \<Rightarrow> 'a outcome) \<Rightarrow> 'a thread_pool \<Rightarrow> exception option \<times> 'a thread_pool" where
  "ThreadPool_execute p task s =
     (case task () of
        Returns v \<Rightarrow> (None, s\<lparr>shared := (shared s)(p := Ready (Returns v))\<rparr>)
      | Throws e \<Rightarrow> (Some e, s))"

text \<open>
  \<open>stop()\<close>, called by the destructor, clears \<open>m_enabled\<close> under the lock, notifies all
  workers and joins them; the join returns when every worker has left its loop.
\<close>

definition ThreadPool_stop :: "'a thread_pool \<Rightarrow> 'a thread_pool" where
  "ThreadPool_stop s = s\<lparr>m_enabled := False\<rparr>"

text \<open>
  One pass of a waiting worker through the head of its loop, under the lock:
  \<^verbatim>\<open>
    m_cv.wait(lock, [&] () { return !m_enabled || !m_tasks.empty(); });
    if (!m_enabled) break;
    auto task = std::move(m_tasks.front());
    m_tasks.pop();
    lock.unlock();
  \<close>
\<close>

definition worker_wake :: "nat \<Rightarrow> 'a thread_pool \<Rightarrow> 'a thread_pool" where
  "worker_wake i s =
     (if i < length (m_pool s) \<and> m_pool s ! i = Waiting then
        (if \<not> m_enabled s then s\<lparr>m_pool := (m_pool s)[i := Exited]\<rparr>
         else case m_tasks s of
                [] \<Rightarrow> s
              | (p, task) # rest \<Rightarrow> s\<lparr>m_tasks := rest, m_pool := (m_pool s)[i := Running p task]\<rparr>)
      else s)"

text \<open>
  \<open>task();\<close> in the loop, outside the lock. If the closure returns, the worker is back
  at the top of the loop. The loop and the thread function have no handler: an
  exception that leaves the closure leaves the thread function.
\<close>

definition worker_call :: "nat \<Rightarrow> 'a thread_pool \<Rightarrow> 'a thread_pool" where
  "worker_call i s =
     (if i < length (m_pool s) then
        (case m_pool s ! i of
           Running p task \<Rightarrow>
             (case ThreadPool_execute p task s of
                (None, s') \<Rightarrow> s'\<lparr>m_pool := (m_pool s')[i := Waiting]\<rparr>
              | (Some e, s') \<Rightarrow> s'\<lparr>uncaught := Some e\<rparr>)
         | _ \<Rightarrow> s)
      else s)"

text \<open>
  What can happen next in the process: the owner of the pool enqueues a task, a
  worker makes one of its two steps, or the destructor starts \<open>stop()\<close>. A run of the
  program is a list of such events. After \<open>std::terminate\<close> nothing happens any more.
\<close>

datatype 'a event = Enqueue "unit \<Rightarrow> 'a outcome" | Wake nat | Call nat | Stop

definition step :: "'a event \<Rightarrow> 'a thread_pool \<Rightarrow> 'a thread_pool" where
  "step ev s =
     (if uncaught s \<noteq> None then s
      else case ev of
             Enqueue task \<Rightarrow> snd (ThreadPool_enqueue task s)
           | Wake i \<Rightarrow> worker_wake i s
           | Call i \<Rightarrow> worker_call i s
           | Stop \<Rightarrow> ThreadPool_stop s)"

text \<open>
  The end of the destructor, after the join: \<open>m_tasks\<close> is destroyed with the closures
  left in it, and with each closure its promise. A promise destroyed before it was
  given a result makes its shared state ready with \<open>broken_promise\<close>.
\<close>

definition destroy_tasks :: "'a thread_pool \<Rightarrow> 'a thread_pool" where
  "destroy_tasks s =
     s\<lparr>m_tasks := [],
       shared := (\<lambda>p. if p \<in> fst ` set (m_tasks s) \<and> shared s p = Not_ready
                       then Ready (Throws Broken_promise) else shared s p)\<rparr>"

text \<open>\<open>future.get()\<close>: blocks (\<open>None\<close>) until the shared state is ready.\<close>

definition future_get :: "'a thread_pool \<Rightarrow> nat \<Rightarrow> 'a outcome option" where
  "future_get s p = (case shared s p of Not_ready \<Rightarrow> None | Ready r \<Rightarrow> Some r)"


text \<open>
  The invariant of the pool: the promises in the queue are pairwise different,
  allocated and not ready; the promise a worker holds is allocated, not ready, not in
  the queue and held by no other worker; promises not yet allocated are not ready.
\<close>

definition pool_inv :: "'a thread_pool \<Rightarrow> bool" where
  "pool_inv s =
     (distinct (map fst (m_tasks s))
      \<and> (\<forall>q \<in> fst ` set (m_tasks s). q < next_promise s \<and> shared s q = Not_ready)
      \<and> (\<forall>i < length (m_pool s). \<forall>p task. m_pool s ! i = Running p task \<longrightarrow>
            p < next_promise s \<and> p \<notin> fst ` set (m_tasks s) \<and> shared s p = Not_ready
            \<and> (\<forall>j < length (m_pool s). \<forall>task'. m_pool s ! j = Running p task' \<longrightarrow> j = i))
      \<and> (\<forall>q \<ge> next_promise s. shared s q = Not_ready))"





chapter \<open>Properties\<close>

section \<open>Properties of the cooperative scheduler\<close>








section \<open>Properties of the line counter\<close>









section \<open>Properties of retry and fail_3\<close>

lemma fail_3_start_error:
  "\<not> 3 <s c \<Longrightarrow>
   fail_3_start \<lparr>op_count = c, op_r = r\<rparr> w = set_error r (Error_int 42) (puts ''error'' w)"
  by (simp add: fail_3_start_def)

lemma fail_3_start_success:
  "3 <s c \<Longrightarrow>
   fail_3_start \<lparr>op_count = c, op_r = r\<rparr> w =
     (case set_value r c (puts ''success'' w) of
        None \<Rightarrow> None
      | Some (None, w') \<Rightarrow> Some w'
      | Some (Some e, w') \<Rightarrow> set_error r (Error_exception e) w')"
  by (simp add: fail_3_start_def cong: option.case_cong)

lemma retry_receiver_simps:
  "set_value (retry_receiver n conn strt r) = set_value r"
  "set_error (retry_receiver n conn strt r) e = op_retry n conn strt r"
  "set_done (retry_receiver n conn strt r) = set_done r"
  by (simp_all add: retry_receiver_def)

lemma op_retry_fail_3:
  "op_retry (Suc n) fail_3_connect fail_3_start r w =
     fail_3_start \<lparr>op_count = count (retry_s w) + 1, op_r = retry_receiver n fail_3_connect fail_3_start r\<rparr>
       (w\<lparr>retry_s := (retry_s w)\<lparr>count := count (retry_s w) + 1\<rparr>\<rparr>)"
  by (simp add: fail_3_connect_def retry_receiver_def Let_def)

lemma puts_retry_s [simp]:
  "puts str (w\<lparr>retry_s := x\<rparr>) = (puts str w)\<lparr>retry_s := x\<rparr>"
  "retry_s (puts str w) = retry_s w"
  by (simp_all add: puts_def)

lemma op_retry_fail_3_error:
  assumes "\<not> 3 <s count (retry_s w) + 1"
  shows "op_retry (Suc n) fail_3_connect fail_3_start r w =
     op_retry n fail_3_connect fail_3_start r
       ((puts ''error'' w)\<lparr>retry_s := (retry_s w)\<lparr>count := count (retry_s w) + 1\<rparr>\<rparr>)"
  unfolding op_retry_fail_3 using assms
  by (simp add: fail_3_start_error retry_receiver_simps del: op_retry.simps)

lemma op_retry_fail_3_success:
  assumes "3 <s count (retry_s w) + 1"
    and "set_value r (count (retry_s w) + 1)
           ((puts ''success'' w)\<lparr>retry_s := (retry_s w)\<lparr>count := count (retry_s w) + 1\<rparr>\<rparr>)
         = Some (None, w')"
  shows "op_retry (Suc n) fail_3_connect fail_3_start r w = Some w'"
  unfolding op_retry_fail_3 using assms
  by (simp add: fail_3_start_success retry_receiver_simps del: op_retry.simps)

lemma retry_fail_3_run:
  assumes fuel: "3 \<le> n"
    and ret: "set_value r 4
               ((puts ''success'' (puts ''error'' (puts ''error'' (puts ''error'' w))))
                  \<lparr>retry_s := \<lparr>count = 4\<rparr>\<rparr>) = Some (None, w')"
  shows "\<exists>op w1. retry_connect n fail_3_connect fail_3_start (retry \<lparr>count = 0\<rparr>) r w = (Inr op, w1)
           \<and> retry_start fail_3_start op w1 = Some w'"
proof -
  obtain m where n: "n = Suc (Suc (Suc m))"
    using fuel by (metis add_Suc_right le_Suc_ex numeral_3_eq_3 add_Suc)
  let ?rr = "retry_receiver n fail_3_connect fail_3_start r"
  let ?op = "\<lparr>retry_r = r, retry_o = Some \<lparr>op_count = 1, op_r = ?rr\<rparr>\<rparr>"
  let ?w1 = "w\<lparr>retry_s := \<lparr>count = 1\<rparr>\<rparr>"
  let ?w2 = "(puts ''error'' w)\<lparr>retry_s := \<lparr>count = 1\<rparr>\<rparr>"
  let ?w3 = "(puts ''error'' (puts ''error'' w))\<lparr>retry_s := \<lparr>count = 2\<rparr>\<rparr>"
  let ?w4 = "(puts ''error'' (puts ''error'' (puts ''error'' w)))\<lparr>retry_s := \<lparr>count = 3\<rparr>\<rparr>"
  have c: "retry_connect n fail_3_connect fail_3_start (retry \<lparr>count = 0\<rparr>) r w = (Inr ?op, ?w1)"
    by (simp add: retry_connect_def retry_def fail_3_connect_def Let_def)
  have s1: "retry_start fail_3_start ?op ?w1 = op_retry (Suc (Suc (Suc m))) fail_3_connect fail_3_start r ?w2"
    by (simp add: retry_start_def fail_3_start_error word_sless_alt retry_receiver_simps n
        del: op_retry.simps)
  have s2: "op_retry (Suc (Suc (Suc m))) fail_3_connect fail_3_start r ?w2
      = op_retry (Suc (Suc m)) fail_3_connect fail_3_start r ?w3"
    by (subst op_retry_fail_3_error) (simp_all add: word_sless_alt del: op_retry.simps)
  have s3: "op_retry (Suc (Suc m)) fail_3_connect fail_3_start r ?w3
      = op_retry (Suc m) fail_3_connect fail_3_start r ?w4"
    by (subst op_retry_fail_3_error) (simp_all add: word_sless_alt del: op_retry.simps)
  have s4: "op_retry (Suc m) fail_3_connect fail_3_start r ?w4 = Some w'"
    by (rule op_retry_fail_3_success) (use ret in \<open>simp_all add: word_sless_alt\<close>)
  show ?thesis
    using c s1 s2 s3 s4 by (simp del: op_retry.simps)
qed

text \<open>The program: with fuel for three retries or more, \<open>main\<close> returns normally.\<close>

lemma main_returns:
  assumes "3 \<le> n"
  shows "main n = Some \<lparr>stdout = [''error'', ''error'', ''error'', ''success''],
                        terminated = False, retry_s = \<lparr>count = 4\<rparr>\<rparr>"
proof -
  let ?w = "\<lparr>stdout = [], terminated = False, retry_s = \<lparr>count = 0\<rparr>\<rparr>"
  let ?w' = "\<lparr>stdout = [''error'', ''error'', ''error'', ''success''],
              terminated = False, retry_s = \<lparr>count = 4 :: 32 word\<rparr>\<rparr>"
  have "set_value sink (4 :: 32 word)
      ((puts ''success'' (puts ''error'' (puts ''error'' (puts ''error'' ?w))))\<lparr>retry_s := \<lparr>count = 4\<rparr>\<rparr>)
      = Some (None, ?w')"
    by (simp add: sink_def puts_def)
  from retry_fail_3_run [OF assms this] show ?thesis
    by (auto simp: main_def Let_def)
qed

text \<open>
  C1. \<open>retry(fail_3)\<close> is connected to any receiver \<open>r\<close> and started, with fuel for
  at least three retries. The inner sender prints \<open>error\<close> three times and then
  \<open>success\<close>, with its counter at 4, and the operation completes with the call
  \<open>set_value(r, 4)\<close>, the only call made on \<open>r\<close>: if that call returns, the whole
  operation returns, in the state in which the call left the process. The program has
  one thread, so the result is the same in every run.
\<close>

theorem retry_fail_3_completes_with_4:
  assumes "3 \<le> n"
    and "set_value r 4
           ((puts ''success'' (puts ''error'' (puts ''error'' (puts ''error'' w))))
              \<lparr>retry_s := \<lparr>count = 4\<rparr>\<rparr>) = Some (None, w')"
  shows "\<exists>op w1. retry_connect n fail_3_connect fail_3_start (retry \<lparr>count = 0\<rparr>) r w = (Inr op, w1)
           \<and> retry_start fail_3_start op w1 = Some w'"
  using assms by (rule retry_fail_3_run)

theorem retry_fail_3_completes_with_4_witness:
  "(3::nat) \<le> 3
   \<and> set_value sink (4 :: 32 word)
        ((puts ''success'' (puts ''error'' (puts ''error'' (puts ''error''
            \<lparr>stdout = [], terminated = False, retry_s = \<lparr>count = 0\<rparr>\<rparr>))))\<lparr>retry_s := \<lparr>count = 4\<rparr>\<rparr>)
      = Some (None, \<lparr>stdout = [''error'', ''error'', ''error'', ''success''], terminated = False,
                      retry_s = \<lparr>count = 4\<rparr>\<rparr>)
   \<and> (\<exists>op w1. retry_connect 3 fail_3_connect fail_3_start (retry \<lparr>count = 0\<rparr>) sink
          \<lparr>stdout = [], terminated = False, retry_s = \<lparr>count = 0\<rparr>\<rparr> = (Inr op, w1)
        \<and> retry_start fail_3_start op w1
          = Some \<lparr>stdout = [''error'', ''error'', ''error'', ''success''], terminated = False,
                      retry_s = \<lparr>count = 4\<rparr>\<rparr>)"
  using retry_fail_3_completes_with_4 [of 3 sink "\<lparr>stdout = [], terminated = False, retry_s = \<lparr>count = 0\<rparr>\<rparr>"
      "\<lparr>stdout = [''error'', ''error'', ''error'', ''success''], terminated = False, retry_s = \<lparr>count = 4\<rparr>\<rparr>"]
  by (simp add: sink_def puts_def)


text \<open>
  C5. The receiver that \<open>retry\<close> connects the inner sender to passes \<open>set_value\<close> and
  \<open>set_done\<close> to the outer receiver unchanged. Its \<open>set_error\<close> ignores the error and
  connects the inner sender again: if that gives an operation state, it starts it,
  and the outer receiver's \<open>set_error\<close> is not called; if that throws, the exception
  goes to the outer receiver's \<open>set_error\<close>.
\<close>

theorem retry_receiver_forwards:
  "set_value (retry_receiver n conn strt r) = set_value r
   \<and> set_done (retry_receiver n conn strt r) = set_done r
   \<and> (\<forall>o' s'. conn (retry_receiver n conn strt r) (retry_s w) = (Inr o', s') \<longrightarrow>
         set_error (retry_receiver (Suc n) conn strt r) e w = strt o' (w\<lparr>retry_s := s'\<rparr>))
   \<and> (\<forall>x s'. conn (retry_receiver n conn strt r) (retry_s w) = (Inl x, s') \<longrightarrow>
         set_error (retry_receiver (Suc n) conn strt r) e w
           = set_error r (Error_exception x) (w\<lparr>retry_s := s'\<rparr>))"
  by (simp add: retry_receiver_def)

theorem retry_receiver_forwards_witness:
  "set_value (retry_receiver 1 fail_3_connect fail_3_start sink) (7 :: 32 word)
       \<lparr>stdout = [], terminated = False, retry_s = \<lparr>count = 3\<rparr>\<rparr>
     = Some (None, \<lparr>stdout = [], terminated = False, retry_s = \<lparr>count = 3\<rparr>\<rparr>)
   \<and> set_done (retry_receiver 1 fail_3_connect fail_3_start sink)
       \<lparr>stdout = [], terminated = False, retry_s = \<lparr>count = 3\<rparr>\<rparr>
     = Some \<lparr>stdout = [], terminated = True, retry_s = \<lparr>count = 3\<rparr>\<rparr>
   \<and> set_error (retry_receiver 1 fail_3_connect fail_3_start sink) (Error_int 42)
       \<lparr>stdout = [], terminated = False, retry_s = \<lparr>count = 3\<rparr>\<rparr>
     = Some \<lparr>stdout = [''success''], terminated = False, retry_s = \<lparr>count = 4\<rparr>\<rparr>
   \<and> set_error (retry_receiver 1 throwing_connect fail_3_start sink) (Error_int 42)
       \<lparr>stdout = [], terminated = False, retry_s = \<lparr>count = 3\<rparr>\<rparr>
     = Some \<lparr>stdout = [], terminated = True, retry_s = \<lparr>count = 3\<rparr>\<rparr>"
  using retry_receiver_forwards [of 0 fail_3_connect fail_3_start sink
      "\<lparr>stdout = [], terminated = False, retry_s = \<lparr>count = 3\<rparr>\<rparr>" "Error_int 42"]
    retry_receiver_forwards [of 0 throwing_connect fail_3_start sink
      "\<lparr>stdout = [], terminated = False, retry_s = \<lparr>count = 3\<rparr>\<rparr>" "Error_int 42"]
  by (simp add: retry_receiver_def sink_def fail_3_connect_def fail_3_start_def throwing_connect_def
      puts_def terminate_def word_sless_alt Let_def)

lemma count_connect_times: "count (connect_times k r f) = count f + of_nat k"
  by (induction k arbitrary: f) (simp_all add: fail_3_connect_def Let_def)

lemma sless_3_of_nat:
  assumes "n < 2 ^ 31"
  shows "(3 <s (of_nat n :: 32 word)) = (3 < n)"
proof -
  have "sint (of_nat n :: 32 word) = int n"
    using assms by (simp add: signed_of_nat signed_take_bit_int_eq_self)
  then show ?thesis
    by (simp add: word_sless_alt)
qed

text \<open>
  C10. On a new \<open>fail_3\<close>, \<open>n - 1\<close> operation states are connected and never started.
  The \<open>n\<close>-th \<open>connect\<close> (for \<open>n\<close> up to \<open>INT_MAX\<close>) returns an operation state that holds
  the count \<open>n\<close>, and leaves the counter at \<open>n\<close>. Started, that operation state calls
  \<open>set_error(r, 42)\<close> when \<open>n \<le> 3\<close> and \<open>set_value(r, n)\<close> when \<open>n \<ge> 4\<close> (and, only if
  that call throws, \<open>set_error\<close> with the exception thrown).
\<close>

theorem fail_3_counts_connects:
  assumes "1 \<le> n" and "n < 2 ^ 31"
  shows "\<exists>op f'. fail_3_connect r (connect_times (n - 1) r0 \<lparr>count = 0\<rparr>) = (Inr op, f')
     \<and> op_count op = of_nat n \<and> op_r op = r \<and> count f' = of_nat n
     \<and> (n \<le> 3 \<longrightarrow> fail_3_start op w = set_error r (Error_int 42) (puts ''error'' w))
     \<and> (4 \<le> n \<longrightarrow> fail_3_start op w =
           (case set_value r (of_nat n) (puts ''success'' w) of
              None \<Rightarrow> None
            | Some (None, w') \<Rightarrow> Some w'
            | Some (Some e, w') \<Rightarrow> set_error r (Error_exception e) w'))"
proof -
  let ?f = "connect_times (n - 1) r0 \<lparr>count = 0\<rparr>"
  let ?op = "\<lparr>op_count = of_nat n, op_r = r\<rparr>"
  obtain k where k: "n = Suc k"
    using assms(1) by (cases n) simp_all
  have cnt: "count ?f + 1 = of_nat n"
    by (simp add: count_connect_times k)
  then have c: "fail_3_connect r ?f = (Inr ?op, ?f\<lparr>count := of_nat n\<rparr>)"
    by (simp add: fail_3_connect_def Let_def)
  have e: "n \<le> 3 \<Longrightarrow> fail_3_start ?op w = set_error r (Error_int 42) (puts ''error'' w)"
    using assms(2) by (intro fail_3_start_error) (simp add: sless_3_of_nat)
  have v: "4 \<le> n \<Longrightarrow> fail_3_start ?op w =
           (case set_value r (of_nat n) (puts ''success'' w) of
              None \<Rightarrow> None
            | Some (None, w') \<Rightarrow> Some w'
            | Some (Some e, w') \<Rightarrow> set_error r (Error_exception e) w')"
    using assms(2) by (intro fail_3_start_success) (simp add: sless_3_of_nat)
  show ?thesis
    using c e v by simp
qed

theorem fail_3_counts_connects_witness:
  "(1::nat) \<le> 4 \<and> (4::nat) < 2 ^ 31
   \<and> (\<exists>op f'. fail_3_connect sink (connect_times 3 sink \<lparr>count = 0\<rparr>) = (Inr op, f')
     \<and> op_count op = 4 \<and> op_r op = sink \<and> count f' = 4
     \<and> fail_3_start op \<lparr>stdout = [], terminated = False, retry_s = ()\<rparr>
         = Some \<lparr>stdout = [''success''], terminated = False, retry_s = ()\<rparr>)"
  using fail_3_counts_connects [of 4 sink sink "\<lparr>stdout = [], terminated = False, retry_s = ()\<rparr>"]
  by (simp add: sink_def puts_def)


section \<open>Properties of invoke_callback\<close>

text \<open>
  C6. \<open>invoke_callback\<close> invokes the callable once, at once. For a Callback whose
  invocation throws \<open>e\<close>, nothing leaves \<open>invoke_callback\<close>, and the callback's \<open>error\<close>
  is called once, with a \<open>callback_invocation_error\<close> whose nested exception is \<open>e\<close>.
  For a Callback that returns, no signal is sent. For a plain invocable the outcome
  of \<open>invoke_callback\<close> is the outcome of the invocation: an exception leaves it as it
  was thrown.
\<close>

theorem invoke_callback_routes_failure:
  "(\<forall>f e w'. signals c = Some f \<and> invoke c args w = (Some e, w') \<longrightarrow>
      invoke_callback c args w
        = (None, signal_error f (Callback_invocation_error invocation_error (Some e)) w'))
   \<and> (\<forall>f w'. signals c = Some f \<and> invoke c args w = (None, w') \<longrightarrow>
      invoke_callback c args w = (None, w'))
   \<and> (signals c = None \<longrightarrow> invoke_callback c args w = invoke c args w)"
  by (simp add: invoke_callback_def try_invoke_callback_def callback_invocation_error_def)

theorem invoke_callback_routes_failure_witness:
  "invoke_callback (recording_callback (Some (User_exception ''boom''))) () []
     = (None, [Invoked, Error_signal
          (Callback_invocation_error ''invocation error'' (Some (User_exception ''boom'')))])
   \<and> invoke_callback (recording_callback None) () [] = (None, [Invoked])
   \<and> invoke_callback (plain_invocable (Some (User_exception ''boom''))) () []
     = (Some (User_exception ''boom''), [Invoked])"
  using invoke_callback_routes_failure [of "recording_callback (Some (User_exception ''boom''))" "()" "[]"]
    invoke_callback_routes_failure [of "recording_callback None" "()" "[]"]
    invoke_callback_routes_failure [of "plain_invocable (Some (User_exception ''boom''))" "()" "[]"]
  by (simp add: recording_callback_def plain_invocable_def invocation_error_def)


section \<open>Properties of the promise pipeline\<close>



text \<open>
  No exception reaches the state of \<open>sync_wait\<close> through a \<open>then\<close> stage: whatever the
  argument, the call is ill-formed, at the wrapper or at \<open>_promise<T>\<close>.
\<close>

lemma then_promise_into_state: "p_set_exception (then_promise state_promise fn) a d = None"
  by (cases a) (simp_all add: then_promise_def state_promise_def)





section \<open>Properties of the thread pool\<close>

lemma pool_invI:
  assumes "distinct (map fst (m_tasks s))"
    and "\<And>q b. (q, b) \<in> set (m_tasks s) \<Longrightarrow> q < next_promise s \<and> shared s q = Not_ready"
    and "\<And>i p task. i < length (m_pool s) \<Longrightarrow> m_pool s ! i = Running p task \<Longrightarrow>
           p < next_promise s \<and> shared s p = Not_ready"
    and "\<And>i p task b. i < length (m_pool s) \<Longrightarrow> m_pool s ! i = Running p task \<Longrightarrow>
           (p, b) \<notin> set (m_tasks s)"
    and "\<And>i j p task task'. i < length (m_pool s) \<Longrightarrow> m_pool s ! i = Running p task \<Longrightarrow>
           j < length (m_pool s) \<Longrightarrow> m_pool s ! j = Running p task' \<Longrightarrow> j = i"
    and "\<And>q. next_promise s \<le> q \<Longrightarrow> shared s q = Not_ready"
  shows "pool_inv s"
  unfolding pool_inv_def
proof (intro conjI ballI allI impI)
  fix q assume "q \<in> fst ` set (m_tasks s)"
  then obtain b where "(q, b) \<in> set (m_tasks s)" by auto
  then show "q < next_promise s" "shared s q = Not_ready" using assms(2) by blast+
next
  fix i p task assume "i < length (m_pool s)" "m_pool s ! i = Running p task"
  then show "p < next_promise s" "shared s p = Not_ready" "p \<notin> fst ` set (m_tasks s)"
    using assms(3,4) by (blast, blast, fastforce)
qed (use assms in blast)+

lemma pool_invD:
  assumes "pool_inv s"
  shows "distinct (map fst (m_tasks s))"
    and "\<And>q b. (q, b) \<in> set (m_tasks s) \<Longrightarrow> q < next_promise s \<and> shared s q = Not_ready"
    and "\<And>i p task. i < length (m_pool s) \<Longrightarrow> m_pool s ! i = Running p task \<Longrightarrow>
           p < next_promise s \<and> shared s p = Not_ready"
    and "\<And>i p task b. i < length (m_pool s) \<Longrightarrow> m_pool s ! i = Running p task \<Longrightarrow>
           (p, b) \<notin> set (m_tasks s)"
    and "\<And>i j p task task'. i < length (m_pool s) \<Longrightarrow> m_pool s ! i = Running p task \<Longrightarrow>
           j < length (m_pool s) \<Longrightarrow> m_pool s ! j = Running p task' \<Longrightarrow> j = i"
    and "\<And>q. next_promise s \<le> q \<Longrightarrow> shared s q = Not_ready"
proof -
  show "distinct (map fst (m_tasks s))"
    using assms by (simp add: pool_inv_def)
  show "q < next_promise s \<and> shared s q = Not_ready" if "(q, b) \<in> set (m_tasks s)" for q b
  proof -
    from that have "q \<in> fst ` set (m_tasks s)" by force
    then show ?thesis using assms unfolding pool_inv_def by blast
  qed
  show "p < next_promise s \<and> shared s p = Not_ready"
    if "i < length (m_pool s)" "m_pool s ! i = Running p task" for i p task
    using assms that unfolding pool_inv_def by blast
  show "(p, b) \<notin> set (m_tasks s)"
    if "i < length (m_pool s)" "m_pool s ! i = Running p task" for i p task b
  proof -
    have "p \<notin> fst ` set (m_tasks s)"
      using assms that unfolding pool_inv_def by blast
    then show ?thesis by force
  qed
  show "j = i"
    if "i < length (m_pool s)" "m_pool s ! i = Running p task"
      "j < length (m_pool s)" "m_pool s ! j = Running p task'" for i j p task task'
    using assms that unfolding pool_inv_def by blast
  show "shared s q = Not_ready" if "next_promise s \<le> q" for q
    using assms that unfolding pool_inv_def by blast
qed

lemma pool_inv_init: "pool_inv (ThreadPool n)"
  by (simp add: pool_inv_def ThreadPool_def)

lemma pool_inv_enqueue:
  assumes "pool_inv s"
  shows "pool_inv (snd (ThreadPool_enqueue task s))"
proof -
  note D = pool_invD [OF assms]
  let ?s = "s\<lparr>m_tasks := m_tasks s @ [(next_promise s, task)], next_promise := Suc (next_promise s)\<rparr>"
  have e: "snd (ThreadPool_enqueue task s) = ?s"
    by (simp add: ThreadPool_enqueue_def Let_def)
  have fresh: "(next_promise s, b) \<notin> set (m_tasks s)" for b
    using D(2) [of "next_promise s" b] by auto
  have "pool_inv ?s"
  proof (rule pool_invI)
    have "next_promise s \<notin> fst ` set (m_tasks s)"
      using fresh by auto
    then show "distinct (map fst (m_tasks ?s))"
      using D(1) by simp
  next
    fix q b assume "(q, b) \<in> set (m_tasks ?s)"
    then consider "(q, b) \<in> set (m_tasks s)" | "q = next_promise s" by auto
    then show "q < next_promise ?s \<and> shared ?s q = Not_ready"
    proof cases
      case 1
      then show ?thesis using D(2) [of q b] by simp
    next
      case 2
      then show ?thesis using D(6) [of q] by simp
    qed
  next
    fix i p t assume "i < length (m_pool ?s)" "m_pool ?s ! i = Running p t"
    then show "p < next_promise ?s \<and> shared ?s p = Not_ready"
      using D(3) [of i p t] by simp
  next
    fix i p t b assume r: "i < length (m_pool ?s)" "m_pool ?s ! i = Running p t"
    then have "p < next_promise s" "(p, b) \<notin> set (m_tasks s)"
      using D(3) [of i p t] D(4) [of i p t b] by simp_all
    then show "(p, b) \<notin> set (m_tasks ?s)" by simp
  next
    fix i j p t t'
    assume "i < length (m_pool ?s)" "m_pool ?s ! i = Running p t"
      "j < length (m_pool ?s)" "m_pool ?s ! j = Running p t'"
    then show "j = i" using D(5) [of i p t j t'] by simp
  next
    fix q assume "next_promise ?s \<le> q"
    then show "shared ?s q = Not_ready" using D(6) [of q] by simp
  qed
  then show ?thesis by (simp only: e)
qed

lemma pool_inv_frame:
  assumes "pool_inv s" and "m_tasks s' = m_tasks s" and "m_pool s' = m_pool s"
    and "shared s' = shared s" and "next_promise s' = next_promise s"
  shows "pool_inv s'"
  using assms(1) unfolding pool_inv_def assms(2-5) .

lemma pool_inv_stop: "pool_inv s \<Longrightarrow> pool_inv (ThreadPool_stop s)"
  by (erule pool_inv_frame) (simp_all add: ThreadPool_stop_def)

lemma worker_wake_cases:
  obtains (idle) "worker_wake i s = s"
  | (exit) "i < length (m_pool s)" "m_pool s ! i = Waiting" "\<not> m_enabled s"
      "worker_wake i s = s\<lparr>m_pool := (m_pool s)[i := Exited]\<rparr>"
  | (pop) p task rest where "i < length (m_pool s)" "m_pool s ! i = Waiting" "m_enabled s"
      "m_tasks s = (p, task) # rest"
      "worker_wake i s = s\<lparr>m_tasks := rest, m_pool := (m_pool s)[i := Running p task]\<rparr>"
proof (cases "i < length (m_pool s) \<and> m_pool s ! i = Waiting")
  case False
  then have "worker_wake i s = s" by (auto simp: worker_wake_def)
  then show ?thesis by (rule idle)
next
  case w: True
  show ?thesis
  proof (cases "m_enabled s")
    case False
    with w show ?thesis by (intro exit) (simp_all add: worker_wake_def)
  next
    case e: True
    show ?thesis
    proof (cases "m_tasks s")
      case Nil
      with w e show ?thesis by (intro idle) (simp add: worker_wake_def)
    next
      case (Cons pt rest)
      obtain p task where "pt = (p, task)" by (cases pt)
      with w e Cons show ?thesis by (intro pop [of p task rest]) (simp_all add: worker_wake_def)
    qed
  qed
qed

lemma worker_call_cases:
  obtains (idle) "worker_call i s = s"
  | (returns) p task v where "i < length (m_pool s)" "m_pool s ! i = Running p task"
      "task () = Returns v"
      "worker_call i s = s\<lparr>shared := (shared s)(p := Ready (Returns v)),
                            m_pool := (m_pool s)[i := Waiting]\<rparr>"
  | (throws) p task e where "i < length (m_pool s)" "m_pool s ! i = Running p task"
      "task () = Throws e"
      "worker_call i s = s\<lparr>uncaught := Some e\<rparr>"
proof (cases "i < length (m_pool s)")
  case False
  then show ?thesis using idle by (simp add: worker_call_def)
next
  case True
  show ?thesis
  proof (cases "m_pool s ! i")
    case (Running p task)
    show ?thesis
    proof (cases "task ()")
      case (Returns v)
      with True Running show ?thesis
        by (intro returns [of p task v]) (simp_all add: worker_call_def ThreadPool_execute_def)
    next
      case (Throws e)
      with True Running show ?thesis
        by (intro throws [of p task e]) (simp_all add: worker_call_def ThreadPool_execute_def)
    qed
  qed (use True idle in \<open>simp_all add: worker_call_def\<close>)
qed

lemma pool_inv_wake:
  assumes "pool_inv s"
  shows "pool_inv (worker_wake i s)"
proof (cases rule: worker_wake_cases [where i = i and s = s])
  case idle
  with assms show ?thesis by simp
next
  case exit
  note D = pool_invD [OF assms]
  let ?s = "s\<lparr>m_pool := (m_pool s)[i := Exited]\<rparr>"
  have run: "k < length (m_pool s) \<and> m_pool s ! k = Running p t"
    if "k < length (m_pool ?s)" "m_pool ?s ! k = Running p t" for k p t
    using that exit(1) by (cases "k = i") simp_all
  have "pool_inv ?s"
  proof (rule pool_invI)
    show "distinct (map fst (m_tasks ?s))" using D(1) by simp
  next
    fix q b assume "(q, b) \<in> set (m_tasks ?s)"
    then show "q < next_promise ?s \<and> shared ?s q = Not_ready" using D(2) [of q b] by simp
  next
    fix k p t assume "k < length (m_pool ?s)" "m_pool ?s ! k = Running p t"
    from run [OF this] show "p < next_promise ?s \<and> shared ?s p = Not_ready"
      using D(3) [of k p t] by simp
  next
    fix k p t b assume "k < length (m_pool ?s)" "m_pool ?s ! k = Running p t"
    from run [OF this] show "(p, b) \<notin> set (m_tasks ?s)"
      using D(4) [of k p t b] by simp
  next
    fix k j p t t'
    assume "k < length (m_pool ?s)" "m_pool ?s ! k = Running p t"
      "j < length (m_pool ?s)" "m_pool ?s ! j = Running p t'"
    from run [OF this(1,2)] run [OF this(3,4)] show "j = k"
      using D(5) [of k p t j t'] by simp
  next
    fix q assume "next_promise ?s \<le> q"
    then show "shared ?s q = Not_ready" using D(6) [of q] by simp
  qed
  then show ?thesis by (simp only: exit(4))
next
  case (pop p task rest)
  note D = pool_invD [OF assms]
  let ?s = "s\<lparr>m_tasks := rest, m_pool := (m_pool s)[i := Running p task]\<rparr>"
  have hd: "(p, task) \<in> set (m_tasks s)"
    using pop(4) by simp
  have p: "p < next_promise s" "shared s p = Not_ready"
    using D(2) [OF hd] by simp_all
  have p_rest: "(p, b) \<notin> set rest" for b
    using D(1) pop(4) by force
  have run: "(k = i \<and> q = p) \<or> (k \<noteq> i \<and> k < length (m_pool s) \<and> m_pool s ! k = Running q t)"
    if "k < length (m_pool ?s)" "m_pool ?s ! k = Running q t" for k q t
    using that pop(1) by (cases "k = i") simp_all
  have old: "q \<noteq> p" if "k < length (m_pool s)" "m_pool s ! k = Running q t" for k q t
    using D(4) [OF that, of task] hd by auto
  have "pool_inv ?s"
  proof (rule pool_invI)
    show "distinct (map fst (m_tasks ?s))" using D(1) pop(4) by simp
  next
    fix q b assume "(q, b) \<in> set (m_tasks ?s)"
    then have "(q, b) \<in> set (m_tasks s)" using pop(4) by simp
    then show "q < next_promise ?s \<and> shared ?s q = Not_ready" using D(2) [of q b] by simp
  next
    fix k q t assume "k < length (m_pool ?s)" "m_pool ?s ! k = Running q t"
    from run [OF this] show "q < next_promise ?s \<and> shared ?s q = Not_ready"
      using p D(3) [of k q t] by auto
  next
    fix k q t b assume "k < length (m_pool ?s)" "m_pool ?s ! k = Running q t"
    from run [OF this] show "(q, b) \<notin> set (m_tasks ?s)"
      using p_rest [of b] D(4) [of k q t b] pop(4) by auto
  next
    fix k j q t t'
    assume "k < length (m_pool ?s)" "m_pool ?s ! k = Running q t"
      "j < length (m_pool ?s)" "m_pool ?s ! j = Running q t'"
    from run [OF this(1,2)] run [OF this(3,4)] show "j = k"
      using D(5) [of k q t j t'] old [of k q t] old [of j q t'] by auto
  next
    fix q assume "next_promise ?s \<le> q"
    then show "shared ?s q = Not_ready" using D(6) [of q] by simp
  qed
  then show ?thesis by (simp only: pop(5))
qed

lemma pool_inv_call:
  assumes "pool_inv s"
  shows "pool_inv (worker_call i s)"
proof (cases rule: worker_call_cases [where i = i and s = s])
  case idle
  with assms show ?thesis by simp
next
  case (returns p task v)
  note D = pool_invD [OF assms]
  let ?s = "s\<lparr>shared := (shared s)(p := Ready (Returns v)), m_pool := (m_pool s)[i := Waiting]\<rparr>"
  have p: "p < next_promise s" "\<And>b. (p, b) \<notin> set (m_tasks s)"
    using D(3) [OF returns(1,2)] D(4) [OF returns(1,2)] by simp_all
  have run: "k \<noteq> i \<and> k < length (m_pool s) \<and> m_pool s ! k = Running q t \<and> q \<noteq> p"
    if "k < length (m_pool ?s)" "m_pool ?s ! k = Running q t" for k q t
  proof -
    have k: "k \<noteq> i" "k < length (m_pool s)" "m_pool s ! k = Running q t"
      using that returns(1) by (cases "k = i"; simp)+
    moreover have "q \<noteq> p"
      using D(5) [OF returns(1,2), of k t] k by auto
    ultimately show ?thesis by simp
  qed
  have "pool_inv ?s"
  proof (rule pool_invI)
    show "distinct (map fst (m_tasks ?s))" using D(1) by simp
  next
    fix q b assume "(q, b) \<in> set (m_tasks ?s)"
    then have "(q, b) \<in> set (m_tasks s)" by simp
    then show "q < next_promise ?s \<and> shared ?s q = Not_ready"
      using D(2) [of q b] p(2) [of b] by auto
  next
    fix k q t assume "k < length (m_pool ?s)" "m_pool ?s ! k = Running q t"
    from run [OF this] show "q < next_promise ?s \<and> shared ?s q = Not_ready"
      using D(3) [of k q t] by simp
  next
    fix k q t b assume "k < length (m_pool ?s)" "m_pool ?s ! k = Running q t"
    from run [OF this] show "(q, b) \<notin> set (m_tasks ?s)"
      using D(4) [of k q t b] by simp
  next
    fix k j q t t'
    assume "k < length (m_pool ?s)" "m_pool ?s ! k = Running q t"
      "j < length (m_pool ?s)" "m_pool ?s ! j = Running q t'"
    from run [OF this(1,2)] run [OF this(3,4)] show "j = k"
      using D(5) [of k q t j t'] by simp
  next
    fix q assume "next_promise ?s \<le> q"
    then show "shared ?s q = Not_ready" using D(6) [of q] p(1) by simp
  qed
  then show ?thesis by (simp only: returns(4))
next
  case (throws p task e)
  show ?thesis
    unfolding throws(4) by (rule pool_inv_frame [OF assms]) simp_all
qed

lemma pool_inv_step: "pool_inv s \<Longrightarrow> pool_inv (step ev s)"
  by (cases ev) (simp_all add: step_def pool_inv_enqueue pool_inv_wake pool_inv_call pool_inv_stop)

lemma pool_inv_fold: "pool_inv s \<Longrightarrow> pool_inv (fold step evs s)"
  by (induction evs arbitrary: s) (simp_all add: pool_inv_step)



lemma step_cases:
  obtains (dead) "uncaught s \<noteq> None" "step ev s = s"
  | (enqueue) task where "uncaught s = None" "ev = Enqueue task"
      "step ev s = s\<lparr>m_tasks := m_tasks s @ [(next_promise s, task)],
                      next_promise := Suc (next_promise s)\<rparr>"
  | (wake) i where "uncaught s = None" "ev = Wake i" "step ev s = worker_wake i s"
  | (call) i where "uncaught s = None" "ev = Call i" "step ev s = worker_call i s"
  | (stop) "uncaught s = None" "ev = Stop" "step ev s = s\<lparr>m_enabled := False\<rparr>"
proof (cases "uncaught s = None")
  case False
  then show ?thesis by (intro dead) (simp_all add: step_def)
next
  case True
  then show ?thesis
    by (cases ev)
      (auto simp: step_def ThreadPool_enqueue_def ThreadPool_stop_def Let_def
        intro: enqueue wake call stop)
qed

lemma disabled_step:
  assumes "\<not> m_enabled s"
  shows "\<not> m_enabled (step ev s) \<and> (\<exists>extra. m_tasks (step ev s) = m_tasks s @ extra)"
proof (cases rule: step_cases [where s = s and ev = ev])
  case (wake i)
  show ?thesis
    unfolding wake(3) using assms by (cases rule: worker_wake_cases [where i = i and s = s]) simp_all
next
  case (call i)
  show ?thesis
    unfolding call(3) using assms by (cases rule: worker_call_cases [where i = i and s = s]) simp_all
qed (use assms in simp_all)

lemma disabled_fold:
  assumes "\<not> m_enabled s"
  shows "\<not> m_enabled (fold step evs s) \<and> (\<exists>extra. m_tasks (fold step evs s) = m_tasks s @ extra)"
  using assms
proof (induction evs arbitrary: s)
  case Nil
  then show ?case by simp
next
  case (Cons ev evs)
  obtain e1 where 1: "\<not> m_enabled (step ev s)" "m_tasks (step ev s) = m_tasks s @ e1"
    using disabled_step [OF Cons.prems] by blast
  obtain e2 where 2: "\<not> m_enabled (fold step evs (step ev s))"
      "m_tasks (fold step evs (step ev s)) = m_tasks (step ev s) @ e2"
    using Cons.IH [OF 1(1)] by blast
  show ?case using 1 2 by simp
qed

lemma future_get_destroy_tasks:
  "p \<in> fst ` set (m_tasks s) \<Longrightarrow> shared s p = Not_ready \<Longrightarrow>
   future_get (destroy_tasks s) p = Some (Throws Broken_promise)"
  by (simp add: future_get_def destroy_tasks_def)

text \<open>
  C9. The destructor calls \<open>stop()\<close> on a pool in any reachable state, and anything may
  happen afterwards. Then a waiting worker that wakes leaves its loop at once and
  takes no task; the queue keeps every task it had at the stop (the closures were
  never called), the results of these tasks stay not ready, and at the end of the
  destructor the promises are destroyed unfulfilled: the future holds
  \<open>broken_promise\<close>, never a value.
\<close>

theorem stop_discards_queued_tasks:
  assumes st: "stopped = ThreadPool_stop (fold step history (ThreadPool n))"
    and fi: "final = fold step later stopped"
  shows "(\<exists>extra. m_tasks final = m_tasks stopped @ extra)
     \<and> (\<forall>p \<in> fst ` set (m_tasks stopped).
           shared final p = Not_ready
           \<and> future_get (destroy_tasks final) p = Some (Throws Broken_promise))
     \<and> (\<forall>i < length (m_pool final). m_pool final ! i = Waiting \<longrightarrow>
           m_pool (worker_wake i final) ! i = Exited \<and> m_tasks (worker_wake i final) = m_tasks final)"
proof -
  have inv1: "pool_inv stopped"
    unfolding st by (intro pool_inv_stop pool_inv_fold pool_inv_init)
  have inv2: "pool_inv final"
    unfolding fi by (intro pool_inv_fold inv1)
  have dis1: "\<not> m_enabled stopped"
    by (simp add: st ThreadPool_stop_def)
  obtain extra where dis2: "\<not> m_enabled final" and q: "m_tasks final = m_tasks stopped @ extra"
    using disabled_fold [OF dis1, of later] fi by blast
  have nr: "shared final p = Not_ready \<and> future_get (destroy_tasks final) p = Some (Throws Broken_promise)"
    if "p \<in> fst ` set (m_tasks stopped)" for p
  proof -
    from that have p: "p \<in> fst ` set (m_tasks final)"
      by (auto simp: q)
    then have "shared final p = Not_ready"
      using inv2 unfolding pool_inv_def by blast
    with p show ?thesis
      by (simp add: future_get_destroy_tasks)
  qed
  have w: "m_pool (worker_wake i final) ! i = Exited \<and> m_tasks (worker_wake i final) = m_tasks final"
    if "i < length (m_pool final)" "m_pool final ! i = Waiting" for i
    using that dis2 by (simp add: worker_wake_def)
  show ?thesis
    using q nr w by blast
qed


theorem stop_discards_queued_tasks_witness:
  "m_tasks (fold step [Wake 0, Call 0] (ThreadPool_stop
      (fold step [Enqueue (\<lambda>_. Returns 1), Enqueue (\<lambda>_. Returns 2)] (ThreadPool 1 :: int thread_pool))))
     = [(0, \<lambda>_. Returns 1), (1, \<lambda>_. Returns 2)]
   \<and> m_pool (fold step [Wake 0, Call 0] (ThreadPool_stop
      (fold step [Enqueue (\<lambda>_. Returns 1), Enqueue (\<lambda>_. Returns 2)] (ThreadPool 1 :: int thread_pool))))
     = [Exited]
   \<and> future_get (destroy_tasks (fold step [Wake 0, Call 0] (ThreadPool_stop
      (fold step [Enqueue (\<lambda>_. Returns 1), Enqueue (\<lambda>_. Returns 2)] (ThreadPool 1 :: int thread_pool))))) 1
     = Some (Throws Broken_promise)"
  using stop_discards_queued_tasks [where
      stopped = "ThreadPool_stop (fold step [Enqueue (\<lambda>_. Returns 1), Enqueue (\<lambda>_. Returns 2)] (ThreadPool 1 :: int thread_pool))"
      and history = "[Enqueue (\<lambda>_. Returns 1), Enqueue (\<lambda>_. Returns 2)]" and n = 1
      and final = "fold step [Wake 0, Call 0] (ThreadPool_stop
        (fold step [Enqueue (\<lambda>_. Returns 1), Enqueue (\<lambda>_. Returns 2)] (ThreadPool 1 :: int thread_pool)))"
      and later = "[Wake 0, Call 0]"]
  by (simp add: step_def ThreadPool_def ThreadPool_enqueue_def ThreadPool_stop_def worker_wake_def
      worker_call_def destroy_tasks_def future_get_def Let_def)

lemma dead_fold: "uncaught s \<noteq> None \<Longrightarrow> fold step evs s = s"
  by (induction evs) (simp_all add: step_def)

text \<open>
  C2, as the code has it. A worker of a pool in a reachable state holds a task whose
  body throws \<open>e\<close>. When the worker calls it, \<open>e\<close> leaves \<open>execute\<close>, the closure and the
  thread function of the worker, which ends the process; nothing else changes,
  nothing happens afterwards, and the result of the task is never ready: the
  exception is not stored in the deferred result.
\<close>

theorem task_exception_escapes_worker:
  assumes "s = fold step history (ThreadPool n)" and "uncaught s = None"
    and "i < length (m_pool s)" and "m_pool s ! i = Running p task" and "task () = Throws e"
  shows "step (Call i) s = s\<lparr>uncaught := Some e\<rparr>
     \<and> fold step evs (step (Call i) s) = step (Call i) s
     \<and> future_get (fold step evs (step (Call i) s)) p = None"
proof -
  have "pool_inv s"
    unfolding assms(1) by (intro pool_inv_fold pool_inv_init)
  then have nr: "shared s p = Not_ready"
    using pool_invD(3) [of s i p task] assms(3,4) by simp
  have c: "step (Call i) s = s\<lparr>uncaught := Some e\<rparr>"
    using assms(2-5) by (simp add: step_def worker_call_def ThreadPool_execute_def)
  have d: "fold step evs (s\<lparr>uncaught := Some e\<rparr>) = s\<lparr>uncaught := Some e\<rparr>"
    by (rule dead_fold) simp
  show ?thesis
    unfolding c d using nr by (simp add: future_get_def)
qed

theorem task_exception_escapes_worker_witness:
  "fold step [Enqueue (\<lambda>_. Throws (User_exception ''boom'')), Wake 0] (ThreadPool 1 :: int thread_pool)
     = fold step [Enqueue (\<lambda>_. Throws (User_exception ''boom'')), Wake 0] (ThreadPool 1)
   \<and> uncaught (fold step [Enqueue (\<lambda>_. Throws (User_exception ''boom'')), Wake 0]
        (ThreadPool 1 :: int thread_pool)) = None
   \<and> uncaught (step (Call 0) (fold step [Enqueue (\<lambda>_. Throws (User_exception ''boom'')), Wake 0]
        (ThreadPool 1 :: int thread_pool))) = Some (User_exception ''boom'')
   \<and> future_get (fold step [Stop, Wake 0] (step (Call 0)
        (fold step [Enqueue (\<lambda>_. Throws (User_exception ''boom'')), Wake 0]
          (ThreadPool 1 :: int thread_pool)))) 0 = None"
  using task_exception_escapes_worker [where s = "fold step [Enqueue (\<lambda>_. Throws (User_exception ''boom'')), Wake 0]
        (ThreadPool 1 :: int thread_pool)" and history = "[Enqueue (\<lambda>_. Throws (User_exception ''boom'')), Wake 0]"
      and n = 1 and i = 0 and p = 0 and task = "\<lambda>_. Throws (User_exception ''boom'')"
      and e = "User_exception ''boom''" and evs = "[Stop, Wake 0]"]
  by (simp add: step_def ThreadPool_def ThreadPool_enqueue_def worker_wake_def worker_call_def
      ThreadPool_execute_def future_get_def Let_def)

text \<open>
  C2 as stated fails: a pool with one worker is given a task that throws; after the
  worker has run it, the result does not hold the exception, and the exception has
  left the worker's thread function.
\<close>

theorem task_exception_counterexample:
  "future_get (fold step [Enqueue (\<lambda>_. Throws (User_exception ''boom'')), Wake 0, Call 0]
      (ThreadPool 1 :: int thread_pool)) 0 \<noteq> Some (Throws (User_exception ''boom''))
   \<and> uncaught (fold step [Enqueue (\<lambda>_. Throws (User_exception ''boom'')), Wake 0, Call 0]
      (ThreadPool 1 :: int thread_pool)) = Some (User_exception ''boom'')"
  by (simp add: step_def ThreadPool_def ThreadPool_enqueue_def worker_wake_def worker_call_def
      ThreadPool_execute_def future_get_def Let_def)




























end
